theory Spec2Isabelle
  imports Complex_Main
begin

section \<open>JavaScript strings\<close>

text \<open>
  The backend (\<^verbatim>\<open>server.js\<close>) works on JavaScript strings. A string is modelled as a
  list of code units; the model covers the code units below 256 (ASCII and Latin-1), for
  which \<^verbatim>\<open>length\<close> of the JavaScript string is the length of the list.
\<close>

definition is_space :: "char \<Rightarrow> bool" where
  \<comment> \<open>the class \<^verbatim>\<open>\s\<close> of a regular expression, and the characters \<^verbatim>\<open>trim\<close> removes:
      tab, line feed, vertical tab, form feed, carriage return, space, no-break space\<close>
  "is_space c \<longleftrightarrow> c \<in> set [CHR 0x09, CHR 0x0A, CHR 0x0B, CHR 0x0C, CHR 0x0D, CHR 0x20, CHR 0xA0]"

definition lower_char :: "char \<Rightarrow> char" where
  \<comment> \<open>\<^verbatim>\<open>toLowerCase\<close> on one code unit: A to Z, and the Latin-1 capitals but the
      multiplication sign, move up by 32\<close>
  "lower_char c =
     (let n = (of_char c :: nat)
      in if (65 \<le> n \<and> n \<le> 90) \<or> (192 \<le> n \<and> n \<le> 222 \<and> n \<noteq> 215)
         then char_of (n + 32) else c)"

definition toLowerCase :: "string \<Rightarrow> string" where
  "toLowerCase s = map lower_char s"

definition trim :: "string \<Rightarrow> string" where
  "trim s = rev (dropWhile is_space (rev (dropWhile is_space s)))"

fun split_from :: "bool \<Rightarrow> string \<Rightarrow> string \<Rightarrow> string list" where
  \<comment> \<open>the scan behind \<^verbatim>\<open>split(/\s+/)\<close>: the flag says that the scan is inside a run of
      white space, the second argument is the current token, reversed\<close>
  "split_from sep cur [] = [rev cur]"
| "split_from sep cur (c # cs) =
     (if is_space c
      then (if sep then split_from True [] cs else rev cur # split_from True [] cs)
      else split_from False (c # cur) cs)"

definition split_ws :: "string \<Rightarrow> string list" where
  \<comment> \<open>\<^verbatim>\<open>s.split(/\s+/)\<close>: white space at either end of \<open>s\<close> gives an empty token there\<close>
  "split_ws s = split_from False [] s"

fun starts_with :: "string \<Rightarrow> string \<Rightarrow> bool" where
  "starts_with s [] = True"
| "starts_with [] (k # ks) = False"
| "starts_with (c # cs) (k # ks) = (c = k \<and> starts_with cs ks)"

fun js_includes :: "string \<Rightarrow> string \<Rightarrow> bool" where
  \<comment> \<open>\<^verbatim>\<open>s.includes(k)\<close>: \<open>k\<close> occurs in \<open>s\<close> as a contiguous substring\<close>
  "js_includes [] k = (k = [])"
| "js_includes (c # cs) k = (starts_with (c # cs) k \<or> js_includes cs k)"

fun join :: "string \<Rightarrow> string list \<Rightarrow> string" where
  \<comment> \<open>\<^verbatim>\<open>xs.join(sep)\<close>\<close>
  "join sep [] = []"
| "join sep [x] = x"
| "join sep (x # y # ys) = x @ sep @ join sep (y # ys)"

fun strip_from :: "bool \<Rightarrow> string \<Rightarrow> string" where
  \<comment> \<open>the scan behind \<^verbatim>\<open>replace(/<[^>]*>/g, '')\<close>: a tag starts at a \<open><\<close> that has a
      \<open>>\<close> somewhere after it and ends at the first such \<open>>\<close>; the flag says that the
      scan is inside a tag\<close>
  "strip_from tag [] = []"
| "strip_from tag (c # cs) =
     (if tag then (if c = CHR ''>'' then strip_from False cs else strip_from True cs)
      else if c = CHR ''<'' \<and> CHR ''>'' \<in> set cs then strip_from True cs
      else c # strip_from False cs)"

definition strip_tags :: "string \<Rightarrow> string" where
  "strip_tags s = strip_from False s"

fun has_tag :: "string \<Rightarrow> bool" where
  \<comment> \<open>the string has a match of \<^verbatim>\<open><[^>]*>\<close>: a \<open><\<close> with a \<open>>\<close> after it\<close>
  "has_tag [] = False"
| "has_tag (c # cs) = ((c = CHR ''<'' \<and> CHR ''>'' \<in> set cs) \<or> has_tag cs)"

definition nth_opt :: "'a list \<Rightarrow> nat \<Rightarrow> 'a option" where
  \<comment> \<open>\<^verbatim>\<open>xs[i]\<close>: reading past the end gives \<^verbatim>\<open>undefined\<close>, here \<open>None\<close>\<close>
  "nth_opt xs i = (if i < length xs then Some (xs ! i) else None)"

definition random_index :: "rat \<Rightarrow> nat \<Rightarrow> nat" where
  \<comment> \<open>\<^verbatim>\<open>Math.floor(Math.random() * n)\<close>, for the value \<open>rnd\<close> that \<^verbatim>\<open>Math.random()\<close> returns\<close>
  "random_index rnd n = nat \<lfloor>rnd * of_nat n\<rfloor>"

fun truthy :: "string option \<Rightarrow> bool" where
  \<comment> \<open>a field that is absent, or the empty string, is falsy\<close>
  "truthy None = False"
| "truthy (Some s) = (s \<noteq> [])"

fun or_else :: "string option \<Rightarrow> string \<Rightarrow> string" where
  \<comment> \<open>\<^verbatim>\<open>a || d\<close> where \<open>d\<close> is a string\<close>
  "or_else None d = d"
| "or_else (Some s) d = (if s = [] then d else s)"

section \<open>The story resolver of \<^verbatim>\<open>POST /api/generate\<close>\<close>

definition stopWords :: "string list" where
  "stopWords =
     [''a'', ''an'', ''the'', ''is'', ''are'', ''was'', ''were'', ''be'', ''been'', ''being'',
      ''have'', ''has'', ''had'', ''do'', ''does'', ''did'', ''will'', ''would'', ''should'',
      ''could'', ''may'', ''might'', ''can'', ''tell'', ''me'', ''about'', ''of'', ''to'',
      ''for'', ''in'', ''on'', ''at'', ''by'', ''with'']"

definition extract_keywords :: "string \<Rightarrow> string list" where
  \<comment> \<open>\<^verbatim>\<open>userText.toLowerCase().split(/\s+/).filter(w => w.length > 3 && !stopWords.includes(w))\<close>
      and \<^verbatim>\<open>words.slice(0, 3)\<close>\<close>
  "extract_keywords userText =
     take 3 (filter (\<lambda>w. 3 < length w \<and> w \<notin> set stopWords) (split_ws (toLowerCase userText)))"

record entry =
  e_story :: "string option"       \<comment> \<open>the property \<^verbatim>\<open>story\<close> of an entry of the corpus\<close>
  e_content :: "string option"     \<comment> \<open>its property \<^verbatim>\<open>content\<close>\<close>
  e_text :: "string option"        \<comment> \<open>its property \<^verbatim>\<open>text\<close>\<close>

definition entry_text :: "entry \<Rightarrow> string" where
  \<comment> \<open>\<^verbatim>\<open>s.story || s.content || s.text || ''\<close>\<close>
  "entry_text s = or_else (e_story s) (or_else (e_content s) (or_else (e_text s) []))"

definition chosen_text :: "entry option \<Rightarrow> string" where
  \<comment> \<open>\<^verbatim>\<open>r?.story || r?.content || r?.text || ''\<close>: every field of \<^verbatim>\<open>undefined\<close> is
      \<^verbatim>\<open>undefined\<close> under optional chaining\<close>
  "chosen_text r = (case r of None \<Rightarrow> [] | Some s \<Rightarrow> entry_text s)"

definition matches :: "string list \<Rightarrow> entry \<Rightarrow> bool" where
  \<comment> \<open>the filter of \<^verbatim>\<open>storyAPIs[0].extract\<close>: some keyword occurs in the lower-cased text of the entry\<close>
  "matches keywords s = list_ex (\<lambda>keyword. js_includes (toLowerCase (entry_text s)) keyword) keywords"

definition api_extract :: "entry list \<Rightarrow> string list \<Rightarrow> rat \<Rightarrow> string" where
  "api_extract data keywords rnd =
     (let matchingStories = filter (matches keywords) data
      in if 0 < length matchingStories
         then chosen_text (nth_opt matchingStories (random_index rnd (length matchingStories)))
         else chosen_text (nth_opt data (random_index rnd (length data))))"

datatype corpus_response =
    CorpusThrows      \<comment> \<open>\<^verbatim>\<open>fetch\<close>, \<^verbatim>\<open>json()\<close> or \<^verbatim>\<open>extract\<close> raises inside the \<^verbatim>\<open>try\<close>\<close>
  | CorpusNotOk       \<comment> \<open>\<^verbatim>\<open>storyResp.ok\<close> is false\<close>
  | CorpusOk "entry list"

definition template_part1 :: string where
  "template_part1 =
     ''Once upon a time, in a land far, far away, there was a wonderful story'' @
     '' about ''"

definition template_part2 :: string where
  "template_part2 =
     ''. The tale began on a bright sunny morning when everything seemed peac'' @
     ''eful and calm. Suddenly, ''"

definition template_part3 :: string where
  "template_part3 =
     '' appeared and changed everything! The journey was filled with exciteme'' @
     ''nt, mystery, and wonder at every turn. Along the way, there were many '' @
     ''challenges to overcome and lessons to learn. Friends were made, obstac'' @
     ''les were conquered, and hearts were filled with courage. As the days p'' @
     ''assed, the adventure grew more thrilling and more magical. Every momen'' @
     ''t brought new surprises and discoveries that amazed everyone. The stor'' @
     ''y of ''"

definition template_part4 :: string where
  "template_part4 =
     '' taught us about bravery, kindness, and the power of believing in ours'' @
     ''elves. In the end, everything worked out beautifully, and joy filled t'' @
     ''he hearts of all who heard this magnificent tale. And so, the legend o'' @
     ''f ''"

definition template_part5 :: string where
  "template_part5 =
     '' lived on forever, inspiring generations to come. They all lived happi'' @
     ''ly ever after, with memories that would last a lifetime!''"

definition fallback_story1 :: string where
  "fallback_story1 =
     ''Once upon a time, in a magical forest filled with wonder, there lived '' @
     ''a brave little bunny named Fluffy. Fluffy had the softest white fur an'' @
     ''d the brightest curious eyes you ever did see. Every morning, she woul'' @
     ''d wake up excited to explore new parts of the enchanted forest. One be'' @
     ''autiful spring day, while hopping through a meadow of colorful wildflo'' @
     ''wers, Fluffy discovered something extraordinary. Hidden beneath a rain'' @
     ''bow of petals was a glowing golden carrot that shimmered with magical '' @
     ''light! Fluffy couldn't believe her eyes. She carefully picked up the m'' @
     ''agical carrot and knew immediately that this was something special tha'' @
     ''t needed to be shared. She hopped as fast as her little legs could car'' @
     ''ry her, gathering all her forest friends together. There was Sammy the'' @
     '' squirrel, Oliver the owl, Bella the butterfly, and many more wonderfu'' @
     ''l creatures. When they all saw the magical carrot, their eyes lit up w'' @
     ''ith amazement and joy. Fluffy broke the carrot into pieces and shared '' @
     ''it with everyone, and something magical happened. Each friend who ate '' @
     ''a piece felt filled with happiness, kindness, and courage. From that d'' @
     ''ay forward, the forest was filled with even more love and friendship t'' @
     ''han before. Fluffy learned that the best kind of magic comes from shar'' @
     ''ing and caring for others. And they all played together happily ever a'' @
     ''fter, making beautiful memories every single day!''"

definition fallback_story2 :: string where
  "fallback_story2 =
     ''There was a tiny mouse named Max who lived in the coziest little hole '' @
     ''you could imagine, right at the base of an old oak tree. Max's home wa'' @
     ''s decorated with acorn caps and soft moss, and he loved it dearly. But'' @
     '' there was one thing Max loved even more than his cozy home, and that '' @
     ''was cheese! Max dreamed about cheese day and night. He loved all kinds'' @
     '': sharp cheddar, creamy brie, Swiss with holes, and tangy blue cheese.'' @
     '' One extraordinary morning, Max woke up to the most incredible smell w'' @
     ''afting through his tiny door. He followed his nose through the forest,'' @
     '' over hills, and across babbling brooks. The delicious aroma led him t'' @
     ''o an enormous cave he had never seen before. When Max entered the cave'' @
     '', he gasped in absolute amazement. There, sitting in the middle of the'' @
     '' cave, was the biggest, most magnificent wheel of golden cheese he had'' @
     '' ever laid eyes on! It was as tall as a tree and as wide as a house. M'' @
     ''ax couldn't believe his incredible luck! But then Max had a wonderful '' @
     ''idea. Instead of keeping this treasure all to himself, he decided to s'' @
     ''hare it with everyone in the forest. He scurried back home and invited'' @
     '' all his friends: the rabbits, the birds, the deer, the foxes, and eve'' @
     ''n the shy hedgehogs. That evening, they had the most spectacular chees'' @
     ''e party the forest had ever seen! There was dancing under the stars, s'' @
     ''inging beautiful songs, and laughter that echoed through the trees. Ev'' @
     ''eryone enjoyed the delicious cheese and thanked Max for his generous h'' @
     ''eart. Max realized that sharing something special with friends made it'' @
     '' taste even better than keeping it all to himself. They celebrated unt'' @
     ''il the moon was high in the sky, and Max went to bed that night with t'' @
     ''he biggest smile on his face. What an absolutely wonderful and unforge'' @
     ''ttable day it had been!''"

definition fallback_story3 :: string where
  "fallback_story3 =
     ''High above the clouds, in the bright blue sky, lived a friendly dragon'' @
     '' named Spark who was quite different from other dragons. While most dr'' @
     ''agons breathed fire and guarded treasure, Spark had a very special and'' @
     '' unique gift. He could paint the most beautiful, vibrant rainbows anyo'' @
     ''ne had ever seen! Every morning, as the sun began to rise and paint th'' @
     ''e sky with golden light, Spark would wake up feeling excited and ready'' @
     '' to create. He had a magical paintbrush that was as long as a tree and'' @
     '' bristles that sparkled with all the colors of the rainbow. Spark woul'' @
     ''d fly gracefully through the clouds, dipping his brush in sunlight and'' @
     '' rain, mixing colors that no one had ever seen before. He painted magn'' @
     ''ificent arches of red, orange, yellow, green, blue, indigo, and violet'' @
     '' across the vast sky. The children in the villages below would run out'' @
     ''side, point up at the sky, and wave enthusiastically at their friend S'' @
     ''park. Their faces would light up with pure joy and wonder every single'' @
     '' time they saw his beautiful creations. Parents would stop their work '' @
     ''to admire Spark's artwork, and even the grumpiest grown-ups couldn't h'' @
     ''elp but smile when they saw his rainbows. Spark loved knowing that his'' @
     '' art brought happiness to so many people and made their days brighter.'' @
     '' He would sometimes paint special shapes in his rainbows: hearts for p'' @
     ''eople in love, stars for those who needed hope, and swirls for anyone '' @
     ''who needed a reason to smile. Every evening, as the sun began to set, '' @
     ''Spark would paint one last magnificent rainbow to say goodnight to all'' @
     '' his friends below. He would curl up on a soft cloud, feeling warm and'' @
     '' content, knowing he had made the world more beautiful and colorful th'' @
     ''at day. Spark was truly the happiest dragon in the entire world, and e'' @
     ''veryone loved him dearly!''"

definition template :: "string list \<Rightarrow> string" where
  \<comment> \<open>the template literal of the handler; \<^verbatim>\<open>mainKeyword = keywords[0] || 'adventure'\<close>\<close>
  "template keywords =
     (let mainKeyword = or_else (nth_opt keywords 0) ''adventure''
      in template_part1 @ join '', '' keywords @ template_part2 @ mainKeyword @
         template_part3 @ mainKeyword @ template_part4 @ join '' and '' keywords @
         template_part5)"

definition fallbackStories :: "string list" where
  "fallbackStories = [fallback_story1, fallback_story2, fallback_story3]"

definition query_corpus :: "corpus_response \<Rightarrow> string list \<Rightarrow> rat \<Rightarrow> string \<times> bool" where
  \<comment> \<open>the loop over \<^verbatim>\<open>storyAPIs\<close>, which has one element, so its body runs once; the
      result is the pair of \<^verbatim>\<open>story\<close> and \<^verbatim>\<open>apiSuccess\<close> after the loop\<close>
  "query_corpus resp keywords rnd =
     (case resp of
        CorpusThrows \<Rightarrow> ([], False)
      | CorpusNotOk \<Rightarrow> ([], False)
      | CorpusOk data \<Rightarrow>
          (let story = api_extract data keywords rnd
           in if story \<noteq> [] \<and> 50 < length story
              then (trim (strip_tags story), True)
              else (story, False)))"

definition user_text :: "string option \<Rightarrow> string" where
  \<comment> \<open>\<^verbatim>\<open>(req.body && req.body.text) ? String(req.body.text).trim() : ''\<close>\<close>
  "user_text body_text = (if truthy body_text then trim (the body_text) else [])"

definition story_resolver :: "string option \<Rightarrow> corpus_response \<Rightarrow> rat \<Rightarrow> string option" where
  \<comment> \<open>step 1 of the handler: the value of \<^verbatim>\<open>story\<close> when the speech request is built;
      \<open>None\<close> is \<^verbatim>\<open>undefined\<close>\<close>
  "story_resolver body_text resp rnd =
     (let userText = user_text body_text
      in if userText \<noteq> [] \<and> 10 < length userText
         then (let keywords = extract_keywords userText
               in if 0 < length keywords
                  then (let (story, apiSuccess) = query_corpus resp keywords rnd
                        in if \<not> apiSuccess \<or> story = []
                           then Some (template keywords)
                           else Some story)
                  else Some [])
         else nth_opt fallbackStories (random_index rnd (length fallbackStories)))"

section \<open>The speech request of \<^verbatim>\<open>POST /api/generate\<close>\<close>

text \<open>
  A response is its HTTP status and the fields of its JSON body, in order. A value that is
  an object of the provider is kept as its serialised text.
\<close>

record http_response =
  status :: nat
  body :: "(string \<times> string) list"

fun dec :: "nat \<Rightarrow> string" where
  \<comment> \<open>a number inside a template literal: its decimal digits\<close>
  "dec n = (if n < 10 then [char_of (48 + n)] else dec (n div 10) @ [char_of (48 + n mod 10)])"

declare dec.simps [simp del]

record murf_json =
  audioFile :: "string option"
  audioContent :: "string option"
  murf_raw :: string

datatype murf_response =
    MurfThrows string          \<comment> \<open>\<^verbatim>\<open>fetch\<close> or \<^verbatim>\<open>json()\<close> raises; the argument is \<^verbatim>\<open>String(err)\<close>\<close>
  | MurfNotOk nat string       \<comment> \<open>\<^verbatim>\<open>murfResp.ok\<close> is false: the status and the text of the reply\<close>
  | MurfOk murf_json

definition story_field :: "string option \<Rightarrow> (string \<times> string) list" where
  \<comment> \<open>a property whose value is \<^verbatim>\<open>undefined\<close> is left out of the JSON text\<close>
  "story_field story = (case story of None \<Rightarrow> [] | Some s \<Rightarrow> [(''story'', s)])"

definition generation_failed :: "string \<Rightarrow> http_response" where
  \<comment> \<open>the \<^verbatim>\<open>catch\<close> of the handler\<close>
  "generation_failed detail =
     \<lparr>status = 500, body = [(''error'', ''generation_failed''), (''detail'', detail)]\<rparr>"

definition narrate :: "string option \<Rightarrow> murf_response \<Rightarrow> http_response" where
  \<comment> \<open>step 2 of the handler: the call of the speech provider and the reply built from it\<close>
  "narrate story murf =
     (case murf of
        MurfThrows e \<Rightarrow> generation_failed e
      | MurfNotOk st txt \<Rightarrow>
          generation_failed (''Error: Murf TTS error '' @ dec st @ '': '' @ txt)
      | MurfOk murfJson \<Rightarrow>
          if truthy (audioFile murfJson)
          then \<lparr>status = 200, body = story_field story @ [(''audioUrl'', the (audioFile murfJson))]\<rparr>
          else if truthy (audioContent murfJson)
          then \<lparr>status = 200,
                body = story_field story @ [(''base64_audio'', the (audioContent murfJson))]\<rparr>
          else \<lparr>status = 200, body = story_field story @ [(''murf'', murf_raw murfJson)]\<rparr>)"

record generate_env =
  env_corpus :: corpus_response      \<comment> \<open>what the story corpus answers\<close>
  env_random :: rat              \<comment> \<open>what \<^verbatim>\<open>Math.random()\<close> returns; it is called at most once\<close>
  env_murf :: murf_response       \<comment> \<open>what the speech provider answers\<close>

definition generate_handler :: "string option \<Rightarrow> generate_env \<Rightarrow> http_response" where
  "generate_handler body_text env =
     narrate (story_resolver body_text (env_corpus env) (env_random env)) (env_murf env)"

section \<open>The handler of \<^verbatim>\<open>POST /api/upload\<close>\<close>

record upload_file =
  path :: string     \<comment> \<open>\<^verbatim>\<open>req.file.path\<close>\<close>
  size :: nat        \<comment> \<open>\<^verbatim>\<open>req.file.size\<close>, which the handler never reads\<close>

datatype upload_response =
    UpThrows string
  | UpNotOk nat string
  | UpOk "string option"       \<comment> \<open>\<^verbatim>\<open>upJson.upload_url\<close>\<close>

datatype create_response =
    CrThrows string
  | CrNotOk nat string
  | CrOk "string option"       \<comment> \<open>\<^verbatim>\<open>createJson.id\<close>\<close>

record poll_json =
  job_status :: string             \<comment> \<open>\<^verbatim>\<open>pollJson.status\<close>\<close>
  job_text :: "string option"      \<comment> \<open>\<^verbatim>\<open>pollJson.text\<close>\<close>
  job_error :: "string option"     \<comment> \<open>\<^verbatim>\<open>pollJson.error\<close>\<close>
  job_raw :: string                \<comment> \<open>\<^verbatim>\<open>JSON.stringify(pollJson)\<close>\<close>

datatype poll_response =
    PollThrows string
  | PollNotOk nat string
  | PollOk poll_json

text \<open>
  Time is counted in milliseconds since \<^verbatim>\<open>start\<close>. One turn of the loop is described by
  how much longer than its delay the timer took, how long the status request and the reading
  of its reply took, and what the provider answered.
\<close>

record poll_event =
  jitter :: nat
  latency :: nat
  response :: poll_response

datatype upload_error =
    Thrown string                  \<comment> \<open>an exception of \<^verbatim>\<open>fetch\<close> or \<^verbatim>\<open>json()\<close>, as \<^verbatim>\<open>String(err)\<close>\<close>
  | UploadFailed nat string
  | NoUploadUrl
  | CreateFailed nat string
  | NoTranscriptId
  | PollFailed nat string
  | TranscriptionError string
  | TranscriptionTimeout

fun error_string :: "upload_error \<Rightarrow> string" where
  \<comment> \<open>\<^verbatim>\<open>String(err)\<close> for each \<^verbatim>\<open>throw new Error(...)\<close> of the handler\<close>
  "error_string (Thrown s) = s"
| "error_string (UploadFailed st txt) =
     ''Error: AssemblyAI upload failed: '' @ dec st @ '' '' @ txt"
| "error_string NoUploadUrl = ''Error: AssemblyAI upload returned no upload_url.''"
| "error_string (CreateFailed st txt) =
     ''Error: AssemblyAI transcript create failed: '' @ dec st @ '' '' @ txt"
| "error_string NoTranscriptId = ''Error: AssemblyAI transcript creation failed (no id).''"
| "error_string (PollFailed st txt) =
     ''Error: AssemblyAI poll failed: '' @ dec st @ '' '' @ txt"
| "error_string (TranscriptionError m) = ''Error: AssemblyAI transcription error: '' @ m"
| "error_string TranscriptionTimeout = ''Error: AssemblyAI transcription timed out.''"

definition intervalMs :: nat where
  "intervalMs = 1000"

definition timeoutMs :: nat where
  "timeoutMs = 60000"

fun poll_loop :: "nat \<Rightarrow> poll_event list \<Rightarrow> nat list \<times> (upload_error + string) option" where
  \<comment> \<open>the loop \<^verbatim>\<open>for (;;)\<close> from the time \<open>elapsed\<close> on: the times at which a status request
      was sent, and how the loop ended (\<open>None\<close>: the loop has not ended after these turns)\<close>
  "poll_loop elapsed [] = ([], None)"
| "poll_loop elapsed (e # es) =
     (let sent = elapsed + intervalMs + jitter e;
          now = sent + latency e
      in case response e of
           PollThrows m \<Rightarrow> ([sent], Some (Inl (Thrown m)))
         | PollNotOk st txt \<Rightarrow> ([sent], Some (Inl (PollFailed st txt)))
         | PollOk pollJson \<Rightarrow>
             if job_status pollJson = ''completed''
             then ([sent], Some (Inr (or_else (job_text pollJson) [])))
             else if job_status pollJson = ''error''
             then ([sent], Some (Inl (TranscriptionError
                                        (or_else (job_error pollJson) (job_raw pollJson)))))
             else if timeoutMs < now
             then ([sent], Some (Inl TranscriptionTimeout))
             else (let (ts, r) = poll_loop now es in (sent # ts, r)))"

datatype effect =
    CallUpload                 \<comment> \<open>the request to \<^verbatim>\<open>/v2/upload\<close>\<close>
  | CallCreate                 \<comment> \<open>the request to \<^verbatim>\<open>/v2/transcript\<close>\<close>
  | CallPoll nat               \<comment> \<open>a status request, with the time at which it is sent\<close>
  | UnlinkAsync string         \<comment> \<open>\<^verbatim>\<open>fs.unlink(filePath, () => {})\<close>\<close>
  | UnlinkSync string          \<comment> \<open>\<^verbatim>\<open>fs.unlinkSync(req.file.path)\<close> inside its own \<^verbatim>\<open>try\<close>\<close>

record upload_env =
  upload_resp :: upload_response
  create_resp :: create_response
  polls :: "poll_event list"
  unlink_fails :: bool           \<comment> \<open>the deletion of the file fails\<close>

definition transcribe :: "upload_env \<Rightarrow> effect list \<times> (upload_error + string) option" where
  \<comment> \<open>the body of the \<^verbatim>\<open>try\<close> from the upload to the end of the loop\<close>
  "transcribe env =
     (case upload_resp env of
        UpThrows m \<Rightarrow> ([CallUpload], Some (Inl (Thrown m)))
      | UpNotOk st txt \<Rightarrow> ([CallUpload], Some (Inl (UploadFailed st txt)))
      | UpOk upload_url \<Rightarrow>
          if \<not> truthy upload_url then ([CallUpload], Some (Inl NoUploadUrl))
          else (case create_resp env of
                  CrThrows m \<Rightarrow> ([CallUpload, CallCreate], Some (Inl (Thrown m)))
                | CrNotOk st txt \<Rightarrow> ([CallUpload, CallCreate], Some (Inl (CreateFailed st txt)))
                | CrOk transcriptId \<Rightarrow>
                    if \<not> truthy transcriptId
                    then ([CallUpload, CallCreate], Some (Inl NoTranscriptId))
                    else (let (ts, r) = poll_loop 0 (polls env)
                          in ([CallUpload, CallCreate] @ map CallPoll ts, r))))"

record upload_result =
  effects :: "effect list"             \<comment> \<open>the calls made, in order\<close>
  file_removed :: bool                 \<comment> \<open>the temporary file is gone afterwards\<close>
  reply :: "http_response option"      \<comment> \<open>\<open>None\<close>: the loop has not ended, nothing is sent yet\<close>

definition upload_handler :: "upload_file option \<Rightarrow> upload_env \<Rightarrow> upload_result" where
  "upload_handler file env =
     (case file of
        None \<Rightarrow>
          \<lparr>effects = [], file_removed = False,
           reply = Some \<lparr>status = 400, body = [(''error'', ''no_file'')]\<rparr>\<rparr>
      | Some f \<Rightarrow>
          (let (effs, r) = transcribe env
           in case r of
                None \<Rightarrow> \<lparr>effects = effs, file_removed = False, reply = None\<rparr>
              | Some (Inr transcriptText) \<Rightarrow>
                  \<lparr>effects = effs @ [UnlinkAsync (path f)],
                   file_removed = (\<not> unlink_fails env),
                   reply = Some \<lparr>status = 200, body = [(''transcript'', transcriptText)]\<rparr>\<rparr>
              | Some (Inl err) \<Rightarrow>
                  \<lparr>effects = effs @ (if path f \<noteq> [] then [UnlinkSync (path f)] else []),
                   file_removed = (path f \<noteq> [] \<and> \<not> unlink_fails env),
                   reply = Some \<lparr>status = 500,
                                 body = [(''error'', ''upload_failed''),
                                         (''detail'', error_string err)]\<rparr>\<rparr>))"

definition carries :: "http_response \<Rightarrow> string \<Rightarrow> bool" where
  \<comment> \<open>the JSON body of the response has the property \<open>k\<close>\<close>
  "carries r k \<longleftrightarrow> map_of (body r) k \<noteq> None"




section \<open>Keyword extraction, in the words of the specification\<close>

text \<open>
  The specification describes the keywords without the scan of \<^verbatim>\<open>split\<close>: the words of a
  text are its maximal runs of characters that are not white space, in order; the keywords
  are the first 3 of the words of the lower-cased text that are longer than 3 characters
  and are not stop words. Lower-casing is given by the table of the capital letters and their
  small letters.
\<close>

function words_of :: "string \<Rightarrow> string list" where
  "words_of s =
     (case dropWhile is_space s of
        [] \<Rightarrow> []
      | c # cs \<Rightarrow> takeWhile (\<lambda>x. \<not> is_space x) (c # cs)
                   # words_of (dropWhile (\<lambda>x. \<not> is_space x) (c # cs)))"
  by pat_completeness auto
termination
proof (relation "measure length")
  show "wf (measure length)"
    by simp
next
  fix s :: string and c cs
  assume d: "dropWhile is_space s = c # cs"
  have "length (dropWhile (\<lambda>x. \<not> is_space x) (c # cs)) \<le> length (c # cs)"
    by (rule length_dropWhile_le)
  moreover have "\<not> is_space c"
    using d hd_dropWhile [of is_space s] by auto
  then have "dropWhile (\<lambda>x. \<not> is_space x) (c # cs) = dropWhile (\<lambda>x. \<not> is_space x) cs"
    by simp
  moreover have "length (dropWhile (\<lambda>x. \<not> is_space x) cs) \<le> length cs"
    by (rule length_dropWhile_le)
  moreover have "length (c # cs) \<le> length s"
    using length_dropWhile_le [of is_space s] d by simp
  ultimately show "(dropWhile (\<lambda>x. \<not> is_space x) (c # cs), s) \<in> measure length"
    by simp
qed

declare words_of.simps [simp del]

definition capitals :: string where
  \<comment> \<open>the capital letters among the code units below 256: A to Z and the Latin-1 capitals\<close>
  "capitals =
     ''ABCDEFGHIJKLMNOPQRSTUVWXYZ'' @
     [CHR 0xC0, CHR 0xC1, CHR 0xC2, CHR 0xC3, CHR 0xC4, CHR 0xC5, CHR 0xC6, CHR 0xC7,
      CHR 0xC8, CHR 0xC9, CHR 0xCA, CHR 0xCB, CHR 0xCC, CHR 0xCD, CHR 0xCE, CHR 0xCF,
      CHR 0xD0, CHR 0xD1, CHR 0xD2, CHR 0xD3, CHR 0xD4, CHR 0xD5, CHR 0xD6, CHR 0xD8,
      CHR 0xD9, CHR 0xDA, CHR 0xDB, CHR 0xDC, CHR 0xDD, CHR 0xDE]"

definition smalls :: string where
  \<comment> \<open>the small letter of each capital letter, in the same order\<close>
  "smalls =
     ''abcdefghijklmnopqrstuvwxyz'' @
     [CHR 0xE0, CHR 0xE1, CHR 0xE2, CHR 0xE3, CHR 0xE4, CHR 0xE5, CHR 0xE6, CHR 0xE7,
      CHR 0xE8, CHR 0xE9, CHR 0xEA, CHR 0xEB, CHR 0xEC, CHR 0xED, CHR 0xEE, CHR 0xEF,
      CHR 0xF0, CHR 0xF1, CHR 0xF2, CHR 0xF3, CHR 0xF4, CHR 0xF5, CHR 0xF6, CHR 0xF8,
      CHR 0xF9, CHR 0xFA, CHR 0xFB, CHR 0xFC, CHR 0xFD, CHR 0xFE]"

definition spec_lower_char :: "char \<Rightarrow> char" where
  \<comment> \<open>lower-casing by the table: a capital letter becomes its small letter, every other
      character stays\<close>
  "spec_lower_char c = (case map_of (zip capitals smalls) c of None \<Rightarrow> c | Some l \<Rightarrow> l)"

definition spec_keywords :: "string \<Rightarrow> string list" where
  "spec_keywords t =
     take 3 [w \<leftarrow> words_of (map spec_lower_char t). 3 < length w \<and> w \<notin> set stopWords]"

definition dragon_entry :: entry where
  \<comment> \<open>an entry of the corpus whose story is marked up and mentions two keywords, in capitals\<close>
  "dragon_entry =
     \<lparr>e_story = Some ''<p>The DRAGONS of the north guarded seven Castles for a thousand years.</p>'',
      e_content = None, e_text = None\<rparr>"

definition forest_entry :: entry where
  \<comment> \<open>an entry of the corpus, longer than 50 characters, that mentions no keyword\<close>
  "forest_entry =
     \<lparr>e_story = None,
      e_content = Some ''A little fox walked through the quiet forest and found a warm home.'',
      e_text = None\<rparr>"

definition markup_entry :: entry where
  \<comment> \<open>an entry of the corpus, longer than 50 characters, that is nothing but tags\<close>
  "markup_entry =
     \<lparr>e_story = None, e_content = None,
      e_text = Some ''<div class=story><p></p><span></span><br><hr><b></b></div>''\<rparr>"

section \<open>Properties of the story resolver\<close>

lemmas string_eval = user_text_def trim_def is_space_def extract_keywords_def split_ws_def
  toLowerCase_def lower_char_def stopWords_def

text \<open>
  C1, evaluated at a transcript that is longer than 10 characters and has no keyword: every
  token of \<^verbatim>\<open>tell me about it all\<close> is a stop word or has at most 3 characters, the branch
  for keywords is skipped, and \<^verbatim>\<open>story\<close> keeps its initial value, the empty string,
  whatever the corpus answers and whatever the random draw is.
\<close>

theorem story_resolver_no_keywords_empty:
  "story_resolver (Some ''tell me about it all'') resp rnd = Some []"
  by (simp add: story_resolver_def string_eval)

theorem story_resolver_no_keywords_empty_witness:
  "10 < length (user_text (Some ''tell me about it all''))
   \<and> extract_keywords (user_text (Some ''tell me about it all'')) = []
   \<and> story_resolver (Some ''tell me about it all'') (CorpusOk []) (1/2) = Some []"
  using story_resolver_no_keywords_empty [of "CorpusOk []" "1/2"]
  by (simp add: string_eval)

lemma random_index_less:
  assumes "0 \<le> rnd" and "rnd < 1" and "0 < n"
  shows "random_index rnd n < n"
proof -
  have "rnd * of_nat n < of_nat n"
    using assms by simp
  then have up: "\<lfloor>rnd * of_nat n\<rfloor> < int n"
    by (simp add: floor_less_iff)
  have lo: "0 \<le> \<lfloor>rnd * of_nat n\<rfloor>"
    using assms by simp
  from up lo show ?thesis
    unfolding random_index_def by linarith
qed

lemma length_trim_le: "length (trim s) \<le> length s"
proof -
  have "length (trim s) \<le> length (dropWhile is_space s)"
    unfolding trim_def by (metis length_dropWhile_le length_rev)
  also have "\<dots> \<le> length s"
    by (rule length_dropWhile_le)
  finally show ?thesis .
qed

lemma length_user_text_le: "body_text = Some t \<Longrightarrow> length (user_text body_text) \<le> length t"
  by (simp add: user_text_def length_trim_le)

lemma user_text_None: "user_text None = []"
  by (simp add: user_text_def)

lemma fallback_story1_nonempty: "fallback_story1 \<noteq> []"
  by (simp add: fallback_story1_def)

lemma fallback_story2_nonempty: "fallback_story2 \<noteq> []"
  by (simp add: fallback_story2_def)

lemma fallback_story3_nonempty: "fallback_story3 \<noteq> []"
  by (simp add: fallback_story3_def)

lemma fallbackStories_nonempty: "s \<in> set fallbackStories \<Longrightarrow> s \<noteq> []"
  using fallback_story1_nonempty fallback_story2_nonempty fallback_story3_nonempty
  by (auto simp: fallbackStories_def)

lemma length_fallbackStories: "length fallbackStories = 3"
  by (simp add: fallbackStories_def)

lemma short_text_resolver:
  assumes "length (user_text body_text) \<le> 10"
  shows "story_resolver body_text resp rnd
           = nth_opt fallbackStories (random_index rnd (length fallbackStories))"
  using assms by (simp add: story_resolver_def Let_def)

text \<open>
  C8: a transcript of at most 10 characters (or none at all) is answered from the static
  fallback list, whatever the corpus would answer: the list has 3 stories, none of them
  empty, the index drawn is inside the list, and the story returned is the element at that
  index. \<^verbatim>\<open>Math.random()\<close> returns a number that is at least 0 and less than 1.
\<close>

theorem short_transcript_fallback:
  assumes short: "\<forall>t. body_text = Some t \<longrightarrow> length t \<le> 10"
    and rnd: "0 \<le> rnd" "rnd < 1"
  shows "3 \<le> length fallbackStories
       \<and> (\<forall>s \<in> set fallbackStories. s \<noteq> [])
       \<and> random_index rnd (length fallbackStories) < length fallbackStories
       \<and> story_resolver body_text resp rnd
           = Some (fallbackStories ! random_index rnd (length fallbackStories))
       \<and> (\<exists>s \<in> set fallbackStories. story_resolver body_text resp rnd = Some s)"
proof -
  have len: "length (user_text body_text) \<le> 10"
  proof (cases body_text)
    case None
    then show ?thesis by (simp add: user_text_None)
  next
    case (Some t)
    with short length_user_text_le [OF Some] show ?thesis by fastforce
  qed
  have idx: "random_index rnd (length fallbackStories) < length fallbackStories"
    using rnd by (intro random_index_less) (simp_all add: length_fallbackStories)
  have res: "story_resolver body_text resp rnd
               = Some (fallbackStories ! random_index rnd (length fallbackStories))"
    using idx by (simp add: short_text_resolver [OF len] nth_opt_def)
  have "fallbackStories ! random_index rnd (length fallbackStories) \<in> set fallbackStories"
    using idx by simp
  with res idx show ?thesis
    by (auto simp: length_fallbackStories dest: fallbackStories_nonempty)
qed

theorem short_transcript_fallback_witness:
  "length ''hello'' \<le> 10 \<and> (0::rat) \<le> 1/2 \<and> (1/2::rat) < 1
   \<and> story_resolver (Some ''hello'') CorpusThrows (1/2) = Some fallback_story2"
proof -
  have h: "\<forall>t. Some ''hello'' = Some t \<longrightarrow> length t \<le> 10"
    by simp
  have "\<lfloor>(1/2::rat) * of_nat 3\<rfloor> = 1"
    by (rule floor_unique) simp_all
  then have r: "random_index (1/2) (length fallbackStories) = 1"
    by (simp add: random_index_def length_fallbackStories)
  from short_transcript_fallback [OF h, of "1/2" CorpusThrows]
  have "story_resolver (Some ''hello'') CorpusThrows (1/2)
          = Some (fallbackStories ! random_index (1/2) (length fallbackStories))"
    by simp
  then have "story_resolver (Some ''hello'') CorpusThrows (1/2) = Some (fallbackStories ! 1)"
    by (simp only: r)
  then show ?thesis
    by (simp add: fallbackStories_def)
qed

lemma template_nonempty: "template keywords \<noteq> []"
  by (simp add: template_def template_part1_def Let_def)

lemma api_extract_empty: "api_extract [] keywords rnd = []"
  by (simp add: api_extract_def nth_opt_def chosen_text_def)

text \<open>
  C10: when the corpus answers with the empty list, reading \<^verbatim>\<open>data[0]\<close> raises nothing
  and gives \<^verbatim>\<open>undefined\<close>, optional chaining turns it into the empty string,
  \<^verbatim>\<open>apiSuccess\<close> stays false, and the resolver returns the templated story of the
  keywords, which is not empty.
\<close>

theorem empty_corpus_template:
  "nth_opt ([] :: entry list) (random_index rnd 0) = None
   \<and> chosen_text None = []
   \<and> api_extract [] keywords rnd = []
   \<and> query_corpus (CorpusOk []) keywords rnd = ([], False)
   \<and> (10 < length (user_text body_text) \<and> extract_keywords (user_text body_text) \<noteq> []
        \<longrightarrow> story_resolver body_text (CorpusOk []) rnd
              = Some (template (extract_keywords (user_text body_text)))
            \<and> template (extract_keywords (user_text body_text)) \<noteq> [])"
  by (simp add: nth_opt_def chosen_text_def api_extract_empty query_corpus_def
      story_resolver_def template_nonempty Let_def)

theorem empty_corpus_template_witness:
  "10 < length (user_text (Some ''tell me about dragons and castles''))
   \<and> extract_keywords (user_text (Some ''tell me about dragons and castles'')) \<noteq> []
   \<and> story_resolver (Some ''tell me about dragons and castles'') (CorpusOk []) (1/2)
       = Some (template [''dragons'', ''castles''])"
proof -
  have u: "user_text (Some ''tell me about dragons and castles'')
             = ''tell me about dragons and castles''"
    by (simp add: user_text_def trim_def is_space_def)
  have k: "extract_keywords ''tell me about dragons and castles'' = [''dragons'', ''castles'']"
    by (simp add: string_eval)
  show ?thesis
    using empty_corpus_template [of "1/2" "[]" "Some ''tell me about dragons and castles''"]
    by (simp add: u k)
qed


section \<open>Properties of the speech request\<close>

text \<open>
  C6, as the code has it: when the call of the speech provider raises, or its reply is not
  ok, the answer is HTTP 500 with the error \<^verbatim>\<open>generation_failed\<close> and a detail, which for a
  reply that is not ok is \<^verbatim>\<open>Error: Murf TTS error\<close> with the status and the text of the
  provider. Otherwise the answer is HTTP 200 with the story and at most one audio shape:
  \<^verbatim>\<open>audioUrl\<close> when \<^verbatim>\<open>audioFile\<close> is truthy, else \<^verbatim>\<open>base64_audio\<close> when
  \<^verbatim>\<open>audioContent\<close> is truthy, else no audio at all but the reply of the provider under
  \<^verbatim>\<open>murf\<close>. The body is always JSON: raw audio bytes are never sent.
\<close>

theorem narrate_shapes:
  "(case murf of
      MurfThrows e \<Rightarrow> narrate story murf = generation_failed e
    | MurfNotOk st txt \<Rightarrow>
        narrate story murf = generation_failed (''Error: Murf TTS error '' @ dec st @ '': '' @ txt)
    | MurfOk murfJson \<Rightarrow>
        status (narrate story murf) = 200
        \<and> map_of (body (narrate story murf)) ''story'' = story
        \<and> (carries (narrate story murf) ''audioUrl'' \<longleftrightarrow> truthy (audioFile murfJson))
        \<and> (carries (narrate story murf) ''base64_audio''
             \<longleftrightarrow> \<not> truthy (audioFile murfJson) \<and> truthy (audioContent murfJson))
        \<and> (carries (narrate story murf) ''murf''
             \<longleftrightarrow> \<not> truthy (audioFile murfJson) \<and> \<not> truthy (audioContent murfJson))
        \<and> \<not> (carries (narrate story murf) ''audioUrl''
              \<and> carries (narrate story murf) ''base64_audio''))
   \<and> status (generation_failed detail) = 500
   \<and> body (generation_failed detail) = [(''error'', ''generation_failed''), (''detail'', detail)]"
proof (cases murf)
  case (MurfOk murfJson)
  then show ?thesis
    by (cases story)
      (simp_all add: narrate_def carries_def story_field_def generation_failed_def)
qed (simp_all add: narrate_def generation_failed_def)

theorem narrate_shapes_witness:
  "status (narrate (Some ''Once upon a time'')
             (MurfOk \<lparr>audioFile = Some ''https://murf.ai/a.mp3'', audioContent = None,
                      murf_raw = ''{}''\<rparr>)) = 200
   \<and> carries (narrate (Some ''Once upon a time'')
                (MurfOk \<lparr>audioFile = Some ''https://murf.ai/a.mp3'', audioContent = None,
                         murf_raw = ''{}''\<rparr>)) ''audioUrl''
   \<and> \<not> carries (narrate (Some ''Once upon a time'')
                (MurfOk \<lparr>audioFile = Some ''https://murf.ai/a.mp3'', audioContent = None,
                         murf_raw = ''{}''\<rparr>)) ''base64_audio''"
  using narrate_shapes [where murf = "MurfOk \<lparr>audioFile = Some ''https://murf.ai/a.mp3'',
      audioContent = None, murf_raw = ''{}''\<rparr>" and story = "Some ''Once upon a time''"]
  by simp

text \<open>
  The claim as stated fails: a reply of the provider that is ok and has neither
  \<^verbatim>\<open>audioFile\<close> nor \<^verbatim>\<open>audioContent\<close> gives a success response with none of the
  three audio shapes.
\<close>

theorem narrate_without_audio_counterexample:
  "status (narrate (Some ''Once upon a time'')
             (MurfOk \<lparr>audioFile = None, audioContent = None, murf_raw = ''{}''\<rparr>)) = 200
   \<and> \<not> carries (narrate (Some ''Once upon a time'')
                (MurfOk \<lparr>audioFile = None, audioContent = None, murf_raw = ''{}''\<rparr>))
            ''audioUrl''
   \<and> \<not> carries (narrate (Some ''Once upon a time'')
                (MurfOk \<lparr>audioFile = None, audioContent = None, murf_raw = ''{}''\<rparr>))
            ''base64_audio''
   \<and> body (narrate (Some ''Once upon a time'')
             (MurfOk \<lparr>audioFile = None, audioContent = None, murf_raw = ''{}''\<rparr>))
       = [(''story'', ''Once upon a time''), (''murf'', ''{}'')]"
  by (simp add: narrate_def carries_def story_field_def)


section \<open>Properties of the upload handler\<close>





lemma transcribe_unlink_fails: "transcribe (env\<lparr>unlink_fails := b\<rparr>) = transcribe env"
  by (simp add: transcribe_def split: upload_response.splits create_response.splits)

text \<open>
  C5: whenever the handler answers a request that has a temporary file, the deletion of
  that file is the last call it makes (\<^verbatim>\<open>fs.unlink\<close> on success,
  \<^verbatim>\<open>fs.unlinkSync\<close> inside its own \<^verbatim>\<open>try\<close> on failure), and the answer is the same
  whether the deletion fails or not; only the file staying behind depends on it.
\<close>

theorem cleanup_on_every_exit:
  assumes "path f \<noteq> []"
    and "reply (upload_handler (Some f) env) = Some r"
  shows "(UnlinkAsync (path f) \<in> set (effects (upload_handler (Some f) env))
          \<or> UnlinkSync (path f) \<in> set (effects (upload_handler (Some f) env)))
       \<and> (status r = 200 \<longleftrightarrow> last (effects (upload_handler (Some f) env)) = UnlinkAsync (path f))
       \<and> (status r = 500 \<longleftrightarrow> last (effects (upload_handler (Some f) env)) = UnlinkSync (path f))
       \<and> reply (upload_handler (Some f) (env\<lparr>unlink_fails := b\<rparr>)) = Some r
       \<and> file_removed (upload_handler (Some f) env) = (\<not> unlink_fails env)"
proof -
  obtain effs res where t: "transcribe env = (effs, res)"
    by (cases "transcribe env")
  have t': "transcribe (env\<lparr>unlink_fails := b\<rparr>) = (effs, res)"
    by (simp add: transcribe_unlink_fails t)
  show ?thesis
    using assms by (auto simp: upload_handler_def t t' split: option.splits sum.splits)
qed

theorem cleanup_on_every_exit_witness:
  "path \<lparr>path = ''uploads/4f2a'', size = 0\<rparr> \<noteq> []
   \<and> reply (upload_handler (Some \<lparr>path = ''uploads/4f2a'', size = 0\<rparr>)
            \<lparr>upload_resp = UpOk None, create_resp = CrThrows [],
             polls = [], unlink_fails = True\<rparr>)
     = Some \<lparr>status = 500,
             body = [(''error'', ''upload_failed''),
                     (''detail'', ''Error: AssemblyAI upload returned no upload_url.'')]\<rparr>
   \<and> reply (upload_handler (Some \<lparr>path = ''uploads/4f2a'', size = 0\<rparr>)
            \<lparr>upload_resp = UpOk None, create_resp = CrThrows [],
             polls = [], unlink_fails = False\<rparr>)
     = Some \<lparr>status = 500,
             body = [(''error'', ''upload_failed''),
                     (''detail'', ''Error: AssemblyAI upload returned no upload_url.'')]\<rparr>
   \<and> UnlinkSync ''uploads/4f2a''
       \<in> set (effects (upload_handler (Some \<lparr>path = ''uploads/4f2a'', size = 0\<rparr>)
            \<lparr>upload_resp = UpOk None, create_resp = CrThrows [],
             polls = [], unlink_fails = True\<rparr>))"
proof -
  have p: "path \<lparr>path = ''uploads/4f2a'', size = 0\<rparr> \<noteq> []"
    by simp
  have r: "reply (upload_handler (Some \<lparr>path = ''uploads/4f2a'', size = 0\<rparr>)
            \<lparr>upload_resp = UpOk None, create_resp = CrThrows [],
             polls = [], unlink_fails = True\<rparr>)
     = Some \<lparr>status = 500,
             body = [(''error'', ''upload_failed''),
                     (''detail'', ''Error: AssemblyAI upload returned no upload_url.'')]\<rparr>"
    by (simp add: upload_handler_def transcribe_def)
  show ?thesis
    using cleanup_on_every_exit [OF p r, of False]
    by (simp add: upload_handler_def transcribe_def)
qed


section \<open>Properties of the polling loop\<close>

lemmas poll_unfold = Let_def split_beta




lemma poll_loop_length: "length (fst (poll_loop elapsed es)) \<le> length es"
  by (induction es arbitrary: elapsed)
    (simp_all add: poll_unfold split: poll_response.splits)














section \<open>Properties of keyword extraction and of the corpus branch\<close>


lemma words_of_Nil: "words_of [] = []"
  by (simp add: words_of.simps)

lemma words_of_space: "is_space c \<Longrightarrow> words_of (c # cs) = words_of cs"
  by (simp add: words_of.simps [of "c # cs"] words_of.simps [of cs])

lemma words_of_word:
  "\<not> is_space c \<Longrightarrow>
     words_of (c # cs) = (c # takeWhile (\<lambda>x. \<not> is_space x) cs)
                           # words_of (dropWhile (\<lambda>x. \<not> is_space x) cs)"
  by (simp add: words_of.simps [of "c # cs"])

lemma split_from_words:
  assumes "\<forall>c \<in> set cur. \<not> is_space c" and "sep \<longrightarrow> cur = []"
  shows "filter (\<lambda>w. w \<noteq> []) (split_from sep cur s)
           = (if cur = [] then words_of s
              else (rev cur @ takeWhile (\<lambda>x. \<not> is_space x) s)
                     # words_of (dropWhile (\<lambda>x. \<not> is_space x) s))"
  using assms
proof (induction s arbitrary: sep cur)
  case Nil
  then show ?case by (simp add: words_of_Nil)
next
  case (Cons c cs)
  show ?case
  proof (cases "is_space c")
    case True
    have "filter (\<lambda>w. w \<noteq> []) (split_from True [] cs) = words_of cs"
      using Cons.IH [of "[]" True] by simp
    with True Cons.prems show ?thesis
      by (simp add: words_of_space)
  next
    case False
    have "filter (\<lambda>w. w \<noteq> []) (split_from False (c # cur) cs)
            = (rev (c # cur) @ takeWhile (\<lambda>x. \<not> is_space x) cs)
                # words_of (dropWhile (\<lambda>x. \<not> is_space x) cs)"
      using Cons.IH [of "c # cur" False] Cons.prems False by simp
    with False show ?thesis
      by (simp add: words_of_word)
  qed
qed

lemma split_ws_words: "filter (\<lambda>w. w \<noteq> []) (split_ws s) = words_of s"
  using split_from_words [of "[]" False s] by (simp add: split_ws_def)

lemma filter_long:
  "filter (\<lambda>w. 3 < length w \<and> Q w) xs
     = filter (\<lambda>w. 3 < length w \<and> Q w) (filter (\<lambda>w. w \<noteq> []) xs)"
  by (induction xs) auto


lemmas char_eval = char_of_def bit_Suc_0_iff

lemma lower_char_table:
  "lower_char c = spec_lower_char c \<and> lower_char (lower_char c) = lower_char c"
proof (cases c)
  case (Char b0 b1 b2 b3 b4 b5 b6 b7)
  show ?thesis
    unfolding Char
    by (cases b0; cases b1; cases b2; cases b3; cases b4; cases b5; cases b6; cases b7;
        simp add: lower_char_def spec_lower_char_def capitals_def smalls_def char_eval)
qed

lemma lower_char_spec: "lower_char c = spec_lower_char c"
  using lower_char_table [of c] by (rule conjunct1)

lemma lower_char_idem: "lower_char (lower_char c) = lower_char c"
  using lower_char_table [of c] by (rule conjunct2)

lemma toLowerCase_spec: "toLowerCase s = map spec_lower_char s"
  by (simp add: toLowerCase_def lower_char_spec)

lemma toLowerCase_idem: "toLowerCase (toLowerCase s) = toLowerCase s"
  by (simp add: toLowerCase_def lower_char_idem)

lemma extract_keywords_spec: "extract_keywords t = spec_keywords t"
  unfolding extract_keywords_def spec_keywords_def toLowerCase_spec
  by (subst filter_long) (simp only: split_ws_words)

lemma split_from_chars: "w \<in> set (split_from sep cur s) \<Longrightarrow> set w \<subseteq> set cur \<union> set s"
proof (induction s arbitrary: sep cur)
  case Nil
  then show ?case by simp
next
  case (Cons c cs)
  show ?case
  proof (cases "is_space c")
    case True
    with Cons.prems have "w = rev cur \<or> w \<in> set (split_from True [] cs)"
      by (auto split: if_splits)
    then show ?thesis
      using Cons.IH [of True "[]"] by auto
  next
    case False
    with Cons.prems have "w \<in> set (split_from False (c # cur) cs)"
      by simp
    from Cons.IH [OF this] show ?thesis
      by auto
  qed
qed

lemma keywords_lower:
  assumes "k \<in> set (extract_keywords t)"
  shows "toLowerCase k = k"
proof -
  from assms have "k \<in> set (split_ws (toLowerCase t))"
    unfolding extract_keywords_def by (auto dest: in_set_takeD)
  then have "set k \<subseteq> set (toLowerCase t)"
    using split_from_chars [of k False "[]" "toLowerCase t"] by (simp add: split_ws_def)
  then have "\<forall>c \<in> set k. lower_char c = c"
    by (auto simp: toLowerCase_def lower_char_idem)
  then show ?thesis
    by (simp add: toLowerCase_def map_idI)
qed

lemma length_extract_keywords: "length (extract_keywords t) \<le> 3"
  by (simp add: extract_keywords_def)

lemma starts_with_append: "starts_with (k @ post) k"
  by (induction k) simp_all

lemma js_includes_append: "js_includes (pre @ k @ post) k"
proof (induction pre)
  case Nil
  show ?case
    by (cases "k @ post") (use starts_with_append [of k post] in auto)
next
  case (Cons c pre)
  then show ?case by simp
qed

lemma join_has_each: "k \<in> set ks \<Longrightarrow> \<exists>pre post. join sep ks = pre @ k @ post"
proof (induction sep ks rule: join.induct)
  case (1 sep)
  then show ?case by simp
next
  case (2 sep x)
  then have "join sep [x] = [] @ k @ []" by simp
  then show ?case by blast
next
  case (3 sep x y ys)
  show ?case
  proof (cases "k = x")
    case True
    then have "join sep (x # y # ys) = [] @ k @ (sep @ join sep (y # ys))" by simp
    then show ?thesis by blast
  next
    case False
    with 3 obtain pre post where "join sep (y # ys) = pre @ k @ post" by auto
    then have "join sep (x # y # ys) = (x @ sep @ pre) @ k @ post" by simp
    then show ?thesis by blast
  qed
qed

lemma template_has_each:
  assumes "k \<in> set keywords"
  shows "js_includes (template keywords) k"
proof -
  obtain pre post where "join '', '' keywords = pre @ k @ post"
    using join_has_each [OF assms] by blast
  then have "\<exists>a b. template keywords = a @ k @ b"
    unfolding template_def Let_def
    by (metis append.assoc)
  then show ?thesis
    using js_includes_append by metis
qed

lemma chosen_text_nth_opt:
  "chosen_text (nth_opt xs i) = [] \<or> (\<exists>e \<in> set xs. chosen_text (nth_opt xs i) = entry_text e)"
  by (auto simp: chosen_text_def nth_opt_def)

lemma api_extract_cases:
  "api_extract data keywords rnd = []
   \<or> (\<exists>e \<in> set data. api_extract data keywords rnd = entry_text e)"
proof (cases "filter (matches keywords) data = []")
  case True
  then show ?thesis
    using chosen_text_nth_opt [of data "random_index rnd (length data)"]
    by (simp add: api_extract_def)
next
  case False
  then show ?thesis
    using chosen_text_nth_opt [of "filter (matches keywords) data"
        "random_index rnd (length (filter (matches keywords) data))"]
    by (auto simp: api_extract_def Let_def)
qed

lemma resolver_with_keywords:
  assumes "10 < length (user_text body_text)"
    and "extract_keywords (user_text body_text) \<noteq> []"
  shows "story_resolver body_text resp rnd
           = (if \<not> snd (query_corpus resp (extract_keywords (user_text body_text)) rnd)
                 \<or> fst (query_corpus resp (extract_keywords (user_text body_text)) rnd) = []
              then Some (template (extract_keywords (user_text body_text)))
              else Some (fst (query_corpus resp (extract_keywords (user_text body_text)) rnd)))"
  using assms by (auto simp: story_resolver_def Let_def split_beta)

lemma dragons_text: "user_text (Some ''tell me about dragons and castles'')
                       = ''tell me about dragons and castles''"
  by (simp add: user_text_def trim_def is_space_def)

lemma dragons_keywords:
  "extract_keywords ''tell me about dragons and castles'' = [''dragons'', ''castles'']"
  by (simp add: string_eval)

lemma short_entries_unusable:
  assumes "resp = CorpusThrows \<or> resp = CorpusNotOk
           \<or> (\<exists>data. resp = CorpusOk data \<and> (\<forall>e \<in> set data. length (entry_text e) \<le> 50))"
  shows "\<not> snd (query_corpus resp keywords rnd)"
proof (cases resp)
  case (CorpusOk data)
  with assms have "\<forall>e \<in> set data. length (entry_text e) \<le> 50"
    by simp
  with api_extract_cases [of data "keywords" rnd]
  have "length (api_extract data keywords rnd) \<le> 50"
    by auto
  then show ?thesis
    by (simp add: CorpusOk query_corpus_def Let_def)
qed (simp_all add: query_corpus_def)


lemma starts_with_iff: "starts_with s k \<longleftrightarrow> (\<exists>post. s = k @ post)"
  by (induction s k rule: starts_with.induct) auto

lemma js_includes_iff: "js_includes s k \<longleftrightarrow> (\<exists>pre post. s = pre @ k @ post)"
proof
  assume "js_includes s k"
  then show "\<exists>pre post. s = pre @ k @ post"
  proof (induction s)
    case Nil
    then show ?case by simp
  next
    case (Cons c cs)
    from Cons.prems have "starts_with (c # cs) k \<or> js_includes cs k"
      by simp
    then show ?case
    proof
      assume "starts_with (c # cs) k"
      then obtain post where "c # cs = [] @ k @ post"
        by (auto simp: starts_with_iff)
      then show ?thesis by blast
    next
      assume "js_includes cs k"
      with Cons.IH obtain pre post where "cs = pre @ k @ post"
        by blast
      then have "c # cs = (c # pre) @ k @ post"
        by simp
      then show ?thesis by blast
    qed
  qed
next
  assume "\<exists>pre post. s = pre @ k @ post"
  then show "js_includes s k"
    using js_includes_append by auto
qed

lemma matches_iff:
  "matches keywords e
     \<longleftrightarrow> (\<exists>k \<in> set keywords. \<exists>pre post. toLowerCase (entry_text e) = pre @ k @ post)"
  by (simp add: matches_def list_ex_iff js_includes_iff)

lemma set_strip_from: "set (strip_from tag s) \<subseteq> set s"
  by (induction s arbitrary: tag) auto

lemma strip_from_no_tag: "\<not> has_tag (strip_from tag s)"
proof (induction s arbitrary: tag)
  case Nil
  then show ?case by simp
next
  case (Cons c cs)
  show ?case
  proof (cases "tag \<or> (c = CHR ''<'' \<and> CHR ''>'' \<in> set cs)")
    case True
    then show ?thesis
      using Cons.IH by auto
  next
    case False
    then have "strip_from tag (c # cs) = c # strip_from False cs"
      by auto
    moreover have "\<not> (c = CHR ''<'' \<and> CHR ''>'' \<in> set (strip_from False cs))"
      using False set_strip_from [of False cs] by auto
    ultimately show ?thesis
      using Cons.IH [of False] by simp
  qed
qed

lemma has_tag_iff:
  "has_tag s \<longleftrightarrow> (\<exists>a b c. s = a @ CHR ''<'' # b @ CHR ''>'' # c)"
proof (induction s)
  case Nil
  then show ?case by simp
next
  case (Cons x xs)
  show ?case
  proof
    assume "has_tag (x # xs)"
    then consider "x = CHR ''<''" "CHR ''>'' \<in> set xs" | "has_tag xs"
      by auto
    then show "\<exists>a b c. x # xs = a @ CHR ''<'' # b @ CHR ''>'' # c"
    proof cases
      case 1
      then obtain b c where "xs = b @ CHR ''>'' # c"
        by (auto simp: in_set_conv_decomp)
      with 1 have "x # xs = [] @ CHR ''<'' # b @ CHR ''>'' # c"
        by simp
      then show ?thesis by blast
    next
      case 2
      with Cons.IH obtain a b c where "xs = a @ CHR ''<'' # b @ CHR ''>'' # c"
        by blast
      then have "x # xs = (x # a) @ CHR ''<'' # b @ CHR ''>'' # c"
        by simp
      then show ?thesis by blast
    qed
  next
    assume "\<exists>a b c. x # xs = a @ CHR ''<'' # b @ CHR ''>'' # c"
    then obtain a b c where eq: "x # xs = a @ CHR ''<'' # b @ CHR ''>'' # c"
      by blast
    show "has_tag (x # xs)"
    proof (cases a)
      case Nil
      with eq show ?thesis by auto
    next
      case (Cons y ys)
      with eq have "xs = ys @ CHR ''<'' # b @ CHR ''>'' # c"
        by simp
      with Cons.IH have "has_tag xs" by blast
      then show ?thesis by simp
    qed
  qed
qed

lemma has_tag_infix: "has_tag s \<Longrightarrow> has_tag (pre @ s @ post)"
proof -
  assume "has_tag s"
  then obtain a b c where "s = a @ CHR ''<'' # b @ CHR ''>'' # c"
    by (auto simp: has_tag_iff)
  then have "pre @ s @ post = (pre @ a) @ CHR ''<'' # b @ CHR ''>'' # (c @ post)"
    by simp
  then show ?thesis
    unfolding has_tag_iff by blast
qed

lemma trim_infix: "\<exists>pre post. s = pre @ trim s @ post"
proof -
  let ?t = "dropWhile is_space s"
  have "s = takeWhile is_space s @ ?t"
    by simp
  moreover have "rev ?t = takeWhile is_space (rev ?t) @ dropWhile is_space (rev ?t)"
    by simp
  then have "?t = rev (dropWhile is_space (rev ?t)) @ rev (takeWhile is_space (rev ?t))"
    by (metis rev_append rev_rev_ident)
  ultimately have "s = takeWhile is_space s @ trim s @ rev (takeWhile is_space (rev ?t))"
    by (simp add: trim_def)
  then show ?thesis by blast
qed

lemma trim_no_tag: "\<not> has_tag s \<Longrightarrow> \<not> has_tag (trim s)"
  using trim_infix [of s] has_tag_infix [of "trim s"] by metis

lemma corpus_text_no_tag: "\<not> has_tag (trim (strip_tags s))"
  by (simp add: trim_no_tag strip_tags_def strip_from_no_tag)

lemma has_tag_lt: "has_tag s \<Longrightarrow> CHR ''<'' \<in> set s"
  by (induction s) auto

lemma set_join: "set (join sep ks) \<subseteq> set sep \<union> (\<Union>k \<in> set ks. set k)"
  by (induction sep ks rule: join.induct) auto

lemma template_parts_no_lt:
  "CHR ''<'' \<notin> set template_part1" "CHR ''<'' \<notin> set template_part2"
  "CHR ''<'' \<notin> set template_part3" "CHR ''<'' \<notin> set template_part4"
  "CHR ''<'' \<notin> set template_part5"
  by (simp_all add: template_part1_def template_part2_def template_part3_def
      template_part4_def template_part5_def)

lemma template_no_tag:
  assumes "\<forall>k \<in> set keywords. CHR ''<'' \<notin> set k"
  shows "\<not> has_tag (template keywords)"
proof -
  have j1: "CHR ''<'' \<notin> set (join '', '' keywords)"
    using set_join [of "'', ''" "keywords"] assms by auto
  have j2: "CHR ''<'' \<notin> set (join '' and '' keywords)"
    using set_join [of "'' and ''" "keywords"] assms by auto
  have m: "CHR ''<'' \<notin> set (or_else (nth_opt keywords 0) ''adventure'')"
    using assms by (cases "keywords") (auto simp: nth_opt_def)
  have "CHR ''<'' \<notin> set (template keywords)"
    using j1 j2 m template_parts_no_lt by (simp add: template_def Let_def)
  then show ?thesis
    using has_tag_lt by blast
qed

lemma random_index_exact:
  assumes "i < n"
  shows "random_index (of_nat i / of_nat n) n = i"
proof -
  have "(of_nat i / of_nat n :: rat) * of_nat n = of_nat i"
    using assms by simp
  then show ?thesis
    by (simp add: random_index_def)
qed

lemma random_fraction:
  assumes "i < n"
  shows "(0::rat) \<le> of_nat i / of_nat n \<and> (of_nat i / of_nat n :: rat) < 1"
  using assms by simp

lemma pool_pick:
  assumes "xs \<noteq> []" and "0 \<le> rnd" and "rnd < 1"
  shows "\<exists>e \<in> set xs. chosen_text (nth_opt xs (random_index rnd (length xs))) = entry_text e"
proof -
  have "random_index rnd (length xs) < length xs"
    using assms by (intro random_index_less) simp_all
  then show ?thesis
    by (auto simp: nth_opt_def chosen_text_def)
qed

lemma pool_reach:
  assumes "e \<in> set xs"
  shows "\<exists>r. (0::rat) \<le> r \<and> r < 1
           \<and> chosen_text (nth_opt xs (random_index r (length xs))) = entry_text e"
proof -
  from assms obtain i where i: "i < length xs" and e: "xs ! i = e"
    by (auto simp: in_set_conv_nth)
  have "chosen_text (nth_opt xs (random_index (of_nat i / of_nat (length xs)) (length xs)))
          = entry_text e"
    using i e by (simp add: random_index_exact nth_opt_def chosen_text_def)
  with random_fraction [OF i] show ?thesis
    by blast
qed

lemma select_matching:
  assumes "\<exists>e \<in> set data. matches kws e" and "0 \<le> rnd" and "rnd < 1"
  shows "\<exists>e \<in> set data. matches kws e \<and> api_extract data kws rnd = entry_text e"
proof -
  from assms(1) have ne: "filter (matches kws) data \<noteq> []"
    by (simp add: filter_empty_conv)
  from pool_pick [OF ne assms(2,3)] ne show ?thesis
    by (auto simp: api_extract_def Let_def)
qed

lemma select_every_matching:
  assumes "e \<in> set data" and "matches kws e"
  shows "\<exists>r. (0::rat) \<le> r \<and> r < 1 \<and> api_extract data kws r = entry_text e"
proof -
  from assms have mem: "e \<in> set (filter (matches kws) data)"
    by simp
  then have "filter (matches kws) data \<noteq> []"
    by (metis empty_iff empty_set)
  then have "\<And>r. api_extract data kws r
                  = chosen_text (nth_opt (filter (matches kws) data)
                      (random_index r (length (filter (matches kws) data))))"
    by (simp add: api_extract_def Let_def)
  with pool_reach [OF mem] show ?thesis
    by simp
qed

lemma select_any:
  assumes "data \<noteq> []" and "\<forall>e \<in> set data. \<not> matches kws e" and "0 \<le> rnd" and "rnd < 1"
  shows "\<exists>e \<in> set data. api_extract data kws rnd = entry_text e"
proof -
  from assms(2) have "filter (matches kws) data = []"
    by (simp add: filter_empty_conv)
  with pool_pick [OF assms(1,3,4)] show ?thesis
    by (simp add: api_extract_def)
qed

lemma query_corpus_usable:
  assumes "50 < length (api_extract data kws rnd)"
  shows "query_corpus (CorpusOk data) kws rnd = (trim (strip_tags (api_extract data kws rnd)), True)"
  using assms by (auto simp: query_corpus_def Let_def)

lemma query_corpus_unusable:
  assumes "\<forall>data. resp = CorpusOk data \<longrightarrow> length (api_extract data kws rnd) \<le> 50"
  shows "\<not> snd (query_corpus resp kws rnd)"
  using assms by (cases resp) (auto simp: query_corpus_def Let_def)

lemma query_corpus_no_tag: "\<not> has_tag (fst (query_corpus resp kws rnd)) \<or> \<not> snd (query_corpus resp kws rnd)"
  by (cases resp) (auto simp: query_corpus_def Let_def corpus_text_no_tag)

lemma resolver_exact:
  assumes "10 < length (user_text body_text)"
    and "extract_keywords (user_text body_text) = kws" and "kws \<noteq> []"
  shows "story_resolver body_text resp rnd
           = Some (case resp of
                     CorpusThrows \<Rightarrow> template kws
                   | CorpusNotOk \<Rightarrow> template kws
                   | CorpusOk data \<Rightarrow>
                       if 50 < length (api_extract data kws rnd)
                          \<and> trim (strip_tags (api_extract data kws rnd)) \<noteq> []
                       then trim (strip_tags (api_extract data kws rnd))
                       else template kws)"
  using assms
  by (cases resp) (auto simp: story_resolver_def query_corpus_def Let_def)

lemma capital_keywords:
  "extract_keywords ''Tell me about DRAGONS Castles knights and wizards'' = [''dragons'', ''castles'', ''knights'']"
  by (simp add: string_eval char_eval)

lemma matches_spec:
  "matches kws e
     \<longleftrightarrow> (\<exists>k \<in> set kws. \<exists>pre post. map spec_lower_char (entry_text e) = pre @ k @ post)"
  by (simp add: matches_iff toLowerCase_spec)

text \<open>
  C7, as the code has it: the keywords the handler extracts are the keywords as the
  specification words them, the first 3, in order, of the words of the lower-cased text that
  are longer than 3 characters and are not stop words, with lower-casing as the table of the
  letters gives it; these are the keywords from which the resolver builds the story of a
  transcript longer than 10 characters. The transcript
  \<^verbatim>\<open>tell me about dragons and castles\<close> has the keywords \<^verbatim>\<open>dragons\<close> and \<^verbatim>\<open>castles\<close>,
  and a transcript with capitals and 4 surviving words has the first 3 of them, in small
  letters. The story of the first transcript is the text chosen from the corpus, stripped
  and trimmed, when that text is longer than 50 characters and not empty once stripped, also
  when no entry mentions a keyword; it is the templated story, which contains
  \<^verbatim>\<open>dragons\<close>, exactly in the other cases: the query fails, or the chosen text has at most
  50 characters or is empty once stripped.
\<close>

theorem keyword_extraction:
  "extract_keywords userText = spec_keywords userText
   \<and> toLowerCase userText = map spec_lower_char userText
   \<and> length (extract_keywords userText) \<le> 3
   \<and> (10 < length (user_text body_text) \<and> spec_keywords (user_text body_text) \<noteq> [] \<longrightarrow>
        story_resolver body_text resp rnd
          = (if \<not> snd (query_corpus resp (spec_keywords (user_text body_text)) rnd)
                \<or> fst (query_corpus resp (spec_keywords (user_text body_text)) rnd) = []
             then Some (template (spec_keywords (user_text body_text)))
             else Some (fst (query_corpus resp (spec_keywords (user_text body_text)) rnd))))
   \<and> extract_keywords ''tell me about dragons and castles'' = [''dragons'', ''castles'']
   \<and> extract_keywords ''Tell me about DRAGONS Castles knights and wizards'' = [''dragons'', ''castles'', ''knights'']
   \<and> (\<not> snd (query_corpus resp [''dragons'', ''castles''] rnd)
        \<or> fst (query_corpus resp [''dragons'', ''castles''] rnd) = []
      \<longrightarrow> story_resolver (Some ''tell me about dragons and castles'') resp rnd
            = Some (template [''dragons'', ''castles'']))
   \<and> (resp = CorpusThrows \<or> resp = CorpusNotOk
        \<or> (\<exists>data. resp = CorpusOk data \<and> (\<forall>e \<in> set data. length (entry_text e) \<le> 50))
      \<longrightarrow> story_resolver (Some ''tell me about dragons and castles'') resp rnd
            = Some (template [''dragons'', ''castles'']))
   \<and> story_resolver (Some ''tell me about dragons and castles'') resp rnd
       = Some (case resp of
                 CorpusThrows \<Rightarrow> template [''dragons'', ''castles'']
               | CorpusNotOk \<Rightarrow> template [''dragons'', ''castles'']
               | CorpusOk data \<Rightarrow>
                   if 50 < length (api_extract data [''dragons'', ''castles''] rnd)
                      \<and> trim (strip_tags (api_extract data [''dragons'', ''castles''] rnd)) \<noteq> []
                   then trim (strip_tags (api_extract data [''dragons'', ''castles''] rnd))
                   else template [''dragons'', ''castles''])
   \<and> js_includes (template [''dragons'', ''castles'']) ''dragons''"
proof -
  have r: "story_resolver (Some ''tell me about dragons and castles'') resp rnd
             = (if \<not> snd (query_corpus resp [''dragons'', ''castles''] rnd)
                   \<or> fst (query_corpus resp [''dragons'', ''castles''] rnd) = []
                then Some (template [''dragons'', ''castles''])
                else Some (fst (query_corpus resp [''dragons'', ''castles''] rnd)))"
    using resolver_with_keywords [of "Some ''tell me about dragons and castles''" resp rnd]
    by (simp add: dragons_text dragons_keywords)
  have unusable: "\<not> snd (query_corpus resp [''dragons'', ''castles''] rnd)
        \<or> fst (query_corpus resp [''dragons'', ''castles''] rnd) = []
      \<longrightarrow> story_resolver (Some ''tell me about dragons and castles'') resp rnd
            = Some (template [''dragons'', ''castles''])"
    by (simp add: r)
  have failed: "resp = CorpusThrows \<or> resp = CorpusNotOk
        \<or> (\<exists>data. resp = CorpusOk data \<and> (\<forall>e \<in> set data. length (entry_text e) \<le> 50))
      \<longrightarrow> story_resolver (Some ''tell me about dragons and castles'') resp rnd
            = Some (template [''dragons'', ''castles''])"
    using short_entries_unusable [of resp "[''dragons'', ''castles'']" rnd] by (simp add: r)
  have token: "js_includes (template [''dragons'', ''castles'']) ''dragons''"
    by (rule template_has_each) simp
  have used: "10 < length (user_text body_text) \<and> spec_keywords (user_text body_text) \<noteq> [] \<longrightarrow>
        story_resolver body_text resp rnd
          = (if \<not> snd (query_corpus resp (spec_keywords (user_text body_text)) rnd)
                \<or> fst (query_corpus resp (spec_keywords (user_text body_text)) rnd) = []
             then Some (template (spec_keywords (user_text body_text)))
             else Some (fst (query_corpus resp (spec_keywords (user_text body_text)) rnd)))"
    using resolver_with_keywords [of body_text resp rnd]
    by (simp only: extract_keywords_spec) blast
  have exact: "story_resolver (Some ''tell me about dragons and castles'') resp rnd
       = Some (case resp of
                 CorpusThrows \<Rightarrow> template [''dragons'', ''castles'']
               | CorpusNotOk \<Rightarrow> template [''dragons'', ''castles'']
               | CorpusOk data \<Rightarrow>
                   if 50 < length (api_extract data [''dragons'', ''castles''] rnd)
                      \<and> trim (strip_tags (api_extract data [''dragons'', ''castles''] rnd)) \<noteq> []
                   then trim (strip_tags (api_extract data [''dragons'', ''castles''] rnd))
                   else template [''dragons'', ''castles''])"
    by (rule resolver_exact) (simp_all add: dragons_text dragons_keywords)
  show ?thesis
    by (intro conjI extract_keywords_spec toLowerCase_spec length_extract_keywords used
        dragons_keywords capital_keywords unusable failed exact token)
qed

theorem keyword_extraction_witness:
  "spec_keywords ''tell me about dragons and castles'' = [''dragons'', ''castles'']
   \<and> spec_keywords ''Tell me about DRAGONS Castles knights and wizards'' = [''dragons'', ''castles'', ''knights'']
   \<and> \<not> snd (query_corpus CorpusNotOk [''dragons'', ''castles''] (1/2))
   \<and> story_resolver (Some ''tell me about dragons and castles'') CorpusNotOk (1/2)
       = Some (template [''dragons'', ''castles''])
   \<and> js_includes (template [''dragons'', ''castles'']) ''dragons''"
proof -
  have q: "\<not> snd (query_corpus CorpusNotOk [''dragons'', ''castles''] (1/2))"
    by (simp add: query_corpus_def)
  note k = keyword_extraction [where userText = "''tell me about dragons and castles''"
      and resp = CorpusNotOk and rnd = "1/2"
      and body_text = "Some ''tell me about dragons and castles''"]
  note k' = keyword_extraction [where userText = "''Tell me about DRAGONS Castles knights and wizards''"
      and resp = CorpusNotOk and rnd = "1/2"
      and body_text = "Some ''tell me about dragons and castles''"]
  from k have a: "extract_keywords ''tell me about dragons and castles''
                    = spec_keywords ''tell me about dragons and castles''"
    by (rule conjunct1)
  from k have b: "extract_keywords ''tell me about dragons and castles''
                    = [''dragons'', ''castles'']"
    by (elim conjE)
  from k' have a': "extract_keywords ''Tell me about DRAGONS Castles knights and wizards'' = spec_keywords ''Tell me about DRAGONS Castles knights and wizards''"
    by (rule conjunct1)
  from k' have b': "extract_keywords ''Tell me about DRAGONS Castles knights and wizards'' = [''dragons'', ''castles'', ''knights'']"
    by (elim conjE)
  from k have "story_resolver (Some ''tell me about dragons and castles'') CorpusNotOk (1/2)
                 = Some (case CorpusNotOk of
                           CorpusThrows \<Rightarrow> template [''dragons'', ''castles'']
                         | CorpusNotOk \<Rightarrow> template [''dragons'', ''castles'']
                         | CorpusOk data \<Rightarrow>
                             if 50 < length (api_extract data [''dragons'', ''castles''] (1/2))
                                \<and> trim (strip_tags (api_extract data [''dragons'', ''castles''] (1/2))) \<noteq> []
                             then trim (strip_tags (api_extract data [''dragons'', ''castles''] (1/2)))
                             else template [''dragons'', ''castles''])"
    by (elim conjE)
  then have c: "story_resolver (Some ''tell me about dragons and castles'') CorpusNotOk (1/2) = Some (template [''dragons'', ''castles''])"
    by simp
  from k have d: "js_includes (template [''dragons'', ''castles'']) ''dragons''"
    by (elim conjE)
  from a b have s: "spec_keywords ''tell me about dragons and castles'' = [''dragons'', ''castles'']"
    by (rule trans [OF sym])
  from a' b' have s': "spec_keywords ''Tell me about DRAGONS Castles knights and wizards'' = [''dragons'', ''castles'', ''knights'']"
    by (rule trans [OF sym])
  from s s' q c d show ?thesis
    by (intro conjI)
qed

text \<open>
  The claim as stated fails: when no entry of the corpus mentions a keyword, the code
  chooses among all entries, and a chosen text longer than 50 characters is the story; it
  is not the templated story and does not contain \<^verbatim>\<open>dragons\<close>.
\<close>

theorem keyword_extraction_counterexample:
  "extract_keywords (user_text (Some ''tell me about dragons and castles'')) = [''dragons'', ''castles'']
   \<and> \<not> matches [''dragons'', ''castles''] forest_entry
   \<and> story_resolver (Some ''tell me about dragons and castles'') (CorpusOk [forest_entry]) 0 = Some ''A little fox walked through the quiet forest and found a warm home.''
   \<and> \<not> js_includes ''A little fox walked through the quiet forest and found a warm home.'' ''dragons''"
proof -
  have m: "\<not> matches [''dragons'', ''castles''] forest_entry"
    by (simp add: matches_def forest_entry_def entry_text_def toLowerCase_def lower_char_def
        char_eval)
  have "random_index 0 (Suc 0) = 0"
    by (simp add: random_index_def)
  with m have x: "api_extract [forest_entry] [''dragons'', ''castles''] 0 = ''A little fox walked through the quiet forest and found a warm home.''"
    by (simp add: api_extract_def nth_opt_def chosen_text_def entry_text_def forest_entry_def)
  have t: "trim (strip_tags ''A little fox walked through the quiet forest and found a warm home.'') = ''A little fox walked through the quiet forest and found a warm home.''"
    by (simp add: trim_def strip_tags_def is_space_def)
  have "story_resolver (Some ''tell me about dragons and castles'') (CorpusOk [forest_entry]) 0 = Some ''A little fox walked through the quiet forest and found a warm home.''"
    by (simp add: story_resolver_def dragons_text dragons_keywords query_corpus_def x t)
  moreover have "\<not> js_includes ''A little fox walked through the quiet forest and found a warm home.'' ''dragons''"
    by simp
  ultimately show ?thesis
    using m by (simp add: dragons_text dragons_keywords)
qed

text \<open>
  C9, as the code has it, for a transcript with at least one keyword: the keywords are in
  small letters, and an entry matches when its lower-cased text has some keyword as a
  substring; the text chosen is the text of a matching entry when there is one, every
  matching entry can be drawn, and the text of some entry is drawn when none matches; a
  chosen text longer than 50 characters is stripped of its tags and trimmed, and is the
  story unless it is then empty; a chosen text of at most 50 characters, a text that is
  empty once stripped, or a query that fails, gives the templated story. The story is never
  empty. It has no tag (a \<open><\<close> with a \<open>>\<close> after it) when it is text of the corpus, or
  when no keyword has a \<open><\<close>: the templated story repeats the keywords as they are.
\<close>

theorem corpus_branch:
  assumes long: "10 < length (user_text body_text)"
    and kws: "extract_keywords (user_text body_text) = kws" "kws \<noteq> []"
    and rnd: "0 \<le> rnd" "rnd < 1"
  shows "(\<forall>e. matches kws e
            \<longleftrightarrow> (\<exists>k \<in> set kws. \<exists>pre post. toLowerCase (entry_text e) = pre @ k @ post))
       \<and> (\<forall>data. (\<exists>e \<in> set data. matches kws e) \<longrightarrow>
            (\<exists>e \<in> set data. matches kws e \<and> api_extract data kws rnd = entry_text e))
       \<and> (\<forall>data e. e \<in> set data \<and> matches kws e \<longrightarrow>
            (\<exists>r. 0 \<le> r \<and> r < 1 \<and> api_extract data kws r = entry_text e))
       \<and> (\<forall>data. data \<noteq> [] \<and> (\<forall>e \<in> set data. \<not> matches kws e) \<longrightarrow>
            (\<exists>e \<in> set data. api_extract data kws rnd = entry_text e))
       \<and> (\<forall>data. resp = CorpusOk data \<and> 50 < length (api_extract data kws rnd)
                 \<and> trim (strip_tags (api_extract data kws rnd)) \<noteq> [] \<longrightarrow>
            story_resolver body_text resp rnd
              = Some (trim (strip_tags (api_extract data kws rnd))))
       \<and> ((\<forall>data. resp = CorpusOk data \<longrightarrow> length (api_extract data kws rnd) \<le> 50) \<longrightarrow>
            story_resolver body_text resp rnd = Some (template kws))
       \<and> (\<exists>s. story_resolver body_text resp rnd = Some s \<and> s \<noteq> []
              \<and> (s = template kws \<or> \<not> has_tag s)
              \<and> ((\<forall>k \<in> set kws. CHR ''<'' \<notin> set k) \<longrightarrow> \<not> has_tag s))
       \<and> (\<forall>k \<in> set kws. toLowerCase k = k)
       \<and> (\<forall>e. matches kws e
            \<longleftrightarrow> (\<exists>k \<in> set kws. \<exists>pre post.
                   map spec_lower_char (entry_text e) = pre @ k @ post))
       \<and> (\<forall>data. resp = CorpusOk data \<and> 50 < length (api_extract data kws rnd)
                 \<and> trim (strip_tags (api_extract data kws rnd)) = [] \<longrightarrow>
            story_resolver body_text resp rnd = Some (template kws))
       \<and> (resp = CorpusThrows \<or> resp = CorpusNotOk \<longrightarrow>
            story_resolver body_text resp rnd = Some (template kws))
       \<and> story_resolver body_text resp rnd
           = Some (case resp of
                     CorpusThrows \<Rightarrow> template kws
                   | CorpusNotOk \<Rightarrow> template kws
                   | CorpusOk data \<Rightarrow>
                       if 50 < length (api_extract data kws rnd)
                          \<and> trim (strip_tags (api_extract data kws rnd)) \<noteq> []
                       then trim (strip_tags (api_extract data kws rnd))
                       else template kws)"
proof -
  have res: "story_resolver body_text resp rnd
           = (if \<not> snd (query_corpus resp kws rnd) \<or> fst (query_corpus resp kws rnd) = []
              then Some (template kws)
              else Some (fst (query_corpus resp kws rnd)))"
    using resolver_with_keywords [of body_text resp rnd] long kws by simp
  have c1: "\<forall>e. matches kws e
            \<longleftrightarrow> (\<exists>k \<in> set kws. \<exists>pre post. toLowerCase (entry_text e) = pre @ k @ post)"
    by (simp add: matches_iff)
  have c2: "\<forall>data. (\<exists>e \<in> set data. matches kws e) \<longrightarrow>
            (\<exists>e \<in> set data. matches kws e \<and> api_extract data kws rnd = entry_text e)"
    using select_matching rnd by blast
  have c3: "\<forall>data e. e \<in> set data \<and> matches kws e \<longrightarrow>
            (\<exists>r. 0 \<le> r \<and> r < 1 \<and> api_extract data kws r = entry_text e)"
    using select_every_matching by blast
  have c4: "\<forall>data. data \<noteq> [] \<and> (\<forall>e \<in> set data. \<not> matches kws e) \<longrightarrow>
            (\<exists>e \<in> set data. api_extract data kws rnd = entry_text e)"
    using select_any rnd by blast
  have c5: "\<forall>data. resp = CorpusOk data \<and> 50 < length (api_extract data kws rnd)
                 \<and> trim (strip_tags (api_extract data kws rnd)) \<noteq> [] \<longrightarrow>
            story_resolver body_text resp rnd
              = Some (trim (strip_tags (api_extract data kws rnd)))"
  proof (intro allI impI)
    fix data
    assume a: "resp = CorpusOk data \<and> 50 < length (api_extract data kws rnd)
                 \<and> trim (strip_tags (api_extract data kws rnd)) \<noteq> []"
    then have q: "query_corpus resp kws rnd
                    = (trim (strip_tags (api_extract data kws rnd)), True)"
      by (simp add: query_corpus_usable)
    show "story_resolver body_text resp rnd
            = Some (trim (strip_tags (api_extract data kws rnd)))"
      unfolding res q using a by simp
  qed
  have c6: "(\<forall>data. resp = CorpusOk data \<longrightarrow> length (api_extract data kws rnd) \<le> 50) \<longrightarrow>
            story_resolver body_text resp rnd = Some (template kws)"
    using query_corpus_unusable [of resp kws rnd] by (simp add: res)
  have c7: "\<exists>s. story_resolver body_text resp rnd = Some s \<and> s \<noteq> []
              \<and> (s = template kws \<or> \<not> has_tag s)
              \<and> ((\<forall>k \<in> set kws. CHR ''<'' \<notin> set k) \<longrightarrow> \<not> has_tag s)"
  proof (cases "\<not> snd (query_corpus resp kws rnd) \<or> fst (query_corpus resp kws rnd) = []")
    case True
    then have "story_resolver body_text resp rnd = Some (template kws)"
      by (simp add: res)
    then show ?thesis
      using template_nonempty [of kws] template_no_tag [of kws] by simp
  next
    case False
    then have "story_resolver body_text resp rnd = Some (fst (query_corpus resp kws rnd))"
      by (simp add: res)
    moreover have "\<not> has_tag (fst (query_corpus resp kws rnd))"
      using False query_corpus_no_tag [of resp kws rnd] by blast
    ultimately show ?thesis
      using False by simp
  qed
  have exact: "story_resolver body_text resp rnd
           = Some (case resp of
                     CorpusThrows \<Rightarrow> template kws
                   | CorpusNotOk \<Rightarrow> template kws
                   | CorpusOk data \<Rightarrow>
                       if 50 < length (api_extract data kws rnd)
                          \<and> trim (strip_tags (api_extract data kws rnd)) \<noteq> []
                       then trim (strip_tags (api_extract data kws rnd))
                       else template kws)"
    using long kws by (rule resolver_exact)
  have c8: "\<forall>k \<in> set kws. toLowerCase k = k"
    using keywords_lower [of _ "user_text body_text"] kws by simp
  have c9: "\<forall>e. matches kws e
            \<longleftrightarrow> (\<exists>k \<in> set kws. \<exists>pre post.
                   map spec_lower_char (entry_text e) = pre @ k @ post)"
    by (simp add: matches_spec)
  have c10: "\<forall>data. resp = CorpusOk data \<and> 50 < length (api_extract data kws rnd)
                 \<and> trim (strip_tags (api_extract data kws rnd)) = [] \<longrightarrow>
            story_resolver body_text resp rnd = Some (template kws)"
    unfolding exact by simp
  have c11: "resp = CorpusThrows \<or> resp = CorpusNotOk \<longrightarrow>
            story_resolver body_text resp rnd = Some (template kws)"
    unfolding exact by auto
  show ?thesis
    by (intro conjI c1 c2 c3 c4 c5 c6 c7 c8 c9 c10 c11 exact)
qed

theorem corpus_branch_witness:
  "10 < length (user_text (Some ''tell me about dragons and castles''))
   \<and> extract_keywords (user_text (Some ''tell me about dragons and castles'')) = [''dragons'', ''castles'']
   \<and> (0::rat) \<le> 0 \<and> (0::rat) < 1
   \<and> matches [''dragons'', ''castles''] dragon_entry
   \<and> story_resolver (Some ''tell me about dragons and castles'') (CorpusOk [dragon_entry]) 0 = Some ''The DRAGONS of the north guarded seven Castles for a thousand years.''
   \<and> 50 < length ''<div class=story><p></p><span></span><br><hr><b></b></div>''
   \<and> trim (strip_tags ''<div class=story><p></p><span></span><br><hr><b></b></div>'') = []
   \<and> story_resolver (Some ''tell me about dragons and castles'') (CorpusOk [markup_entry]) 0 = Some (template [''dragons'', ''castles''])"
proof -
  have l: "10 < length (user_text (Some ''tell me about dragons and castles''))"
    by (simp add: dragons_text)
  have k: "extract_keywords (user_text (Some ''tell me about dragons and castles'')) = [''dragons'', ''castles'']"
    by (simp add: dragons_text dragons_keywords)
  have m: "matches [''dragons'', ''castles''] dragon_entry"
    by (simp add: matches_def dragon_entry_def entry_text_def toLowerCase_def lower_char_def
        char_eval)
  have i: "random_index 0 (Suc 0) = 0"
    by (simp add: random_index_def)
  with m have x: "api_extract [dragon_entry] [''dragons'', ''castles''] 0 = ''<p>The DRAGONS of the north guarded seven Castles for a thousand years.</p>''"
    by (simp add: api_extract_def nth_opt_def chosen_text_def entry_text_def dragon_entry_def)
  have t: "trim (strip_tags ''<p>The DRAGONS of the north guarded seven Castles for a thousand years.</p>'') = ''The DRAGONS of the north guarded seven Castles for a thousand years.''"
    by (simp add: trim_def strip_tags_def is_space_def)
  have n: "\<not> matches [''dragons'', ''castles''] markup_entry"
    by (simp add: matches_def markup_entry_def entry_text_def toLowerCase_def lower_char_def
        char_eval)
  with i have y: "api_extract [markup_entry] [''dragons'', ''castles''] 0 = ''<div class=story><p></p><span></span><br><hr><b></b></div>''"
    by (simp add: api_extract_def nth_opt_def chosen_text_def entry_text_def markup_entry_def)
  have u: "trim (strip_tags ''<div class=story><p></p><span></span><br><hr><b></b></div>'') = []"
    by (simp add: trim_def strip_tags_def is_space_def)
  have v: "50 < length ''<div class=story><p></p><span></span><br><hr><b></b></div>''"
    by simp
  note w = corpus_branch [OF l k _ order_refl zero_less_one]
  from w [of "CorpusOk [dragon_entry]"]
  have a: "story_resolver (Some ''tell me about dragons and castles'') (CorpusOk [dragon_entry]) 0 = Some ''The DRAGONS of the north guarded seven Castles for a thousand years.''"
    by (simp add: x t)
  from w [of "CorpusOk [markup_entry]"]
  have b: "story_resolver (Some ''tell me about dragons and castles'') (CorpusOk [markup_entry]) 0 = Some (template [''dragons'', ''castles''])"
    by (simp add: y u)
  from l k m a v u b show ?thesis
    by simp
qed

text \<open>
  The claim as stated fails: the keywords come from the request as they are, and the
  templated story of a keyword with markup has a tag.
\<close>

theorem corpus_branch_counterexample:
  "10 < length (user_text (Some ''<b>dragons</b> are cool''))
   \<and> extract_keywords (user_text (Some ''<b>dragons</b> are cool''))
       = [''<b>dragons</b>'', ''cool'']
   \<and> story_resolver (Some ''<b>dragons</b> are cool'') CorpusNotOk (1/2)
       = Some (template [''<b>dragons</b>'', ''cool''])
   \<and> has_tag (template [''<b>dragons</b>'', ''cool''])"
proof -
  have u: "user_text (Some ''<b>dragons</b> are cool'') = ''<b>dragons</b> are cool''"
    by (simp add: user_text_def trim_def is_space_def)
  have k: "extract_keywords ''<b>dragons</b> are cool'' = [''<b>dragons</b>'', ''cool'']"
    by (simp add: string_eval)
  have s: "story_resolver (Some ''<b>dragons</b> are cool'') CorpusNotOk (1/2)
             = Some (template [''<b>dragons</b>'', ''cool''])"
    by (simp add: story_resolver_def u k query_corpus_def)
  have "has_tag (join '', '' [''<b>dragons</b>'', ''cool''])"
    by simp
  from has_tag_infix [OF this] have "has_tag (template [''<b>dragons</b>'', ''cool''])"
    unfolding template_def Let_def by (metis append.assoc)
  with u k s show ?thesis
    by simp
qed

end
